theory Spec2Isabelle
  imports Complex_Main "HOL-Library.Sublist"
begin

section \<open>Data model\<close>

text \<open>
  The functions of \<^verbatim>\<open>matching2D_Student.cpp\<close> work on OpenCV values. A \<^verbatim>\<open>cv::Mat\<close> is a
  record of its element type, its dimensions and its elements; \<^verbatim>\<open>float\<close> and \<^verbatim>\<open>double\<close>
  values are taken as the real numbers they denote (rounding of the arithmetic is not
  modelled). \<^verbatim>\<open>cv::KeyPoint\<close> and \<^verbatim>\<open>cv::DMatch\<close> are records of their public fields.
\<close>

datatype depth = CV_8U | CV_8S | CV_16U | CV_16S | CV_32S | CV_32F | CV_64F

record mat =
  mtype :: depth
  rows :: nat
  cols :: nat
  at_f :: "nat \<Rightarrow> nat \<Rightarrow> real"

record keypoint =
  pt_x :: real
  pt_y :: real
  kp_size :: real
  angle :: real
  response :: real
  octave :: int
  class_id :: int

text \<open>The default constructor \<^verbatim>\<open>cv::KeyPoint()\<close>.\<close>

definition KeyPoint :: keypoint where
  "KeyPoint = \<lparr>pt_x = 0, pt_y = 0, kp_size = 0, angle = - 1, response = 0,
     octave = 0, class_id = - 1\<rparr>"

record dmatch =
  queryIdx :: int
  trainIdx :: int
  imgIdx :: int
  distance :: real

text \<open>The constructor \<^verbatim>\<open>cv::DMatch(queryIdx, trainIdx, imgIdx, distance)\<close>.\<close>

definition DMatch :: "int \<Rightarrow> int \<Rightarrow> int \<Rightarrow> real \<Rightarrow> dmatch" where
  "DMatch q t i d = \<lparr>queryIdx = q, trainIdx = t, imgIdx = i, distance = d\<rparr>"

text \<open>
  The source raises nothing itself. What can go wrong is a call through an empty
  \<^verbatim>\<open>cv::Ptr\<close>, an index past the end of a \<^verbatim>\<open>std::vector\<close> (both undefined behaviour in
  C++), and an exception thrown inside the library.
\<close>

datatype failure = NullHandle | OutOfRange | LibraryException

section \<open>Harris keypoints: \<^verbatim>\<open>detKeypointsHarris\<close>\<close>

text \<open>
  The library routines that \<^verbatim>\<open>detKeypointsHarris\<close> calls are parameters of the model:
  \<^verbatim>\<open>cv::cornerHarris\<close> and \<^verbatim>\<open>cv::normalize\<close> as functions that return their output matrix,
  \<^verbatim>\<open>cv::KeyPoint::overlap\<close> as a function of two keypoints.
\<close>

record cv_harris =
  cornerHarris :: "mat \<Rightarrow> int \<Rightarrow> int \<Rightarrow> real \<Rightarrow> int \<Rightarrow> mat"
  normalize :: "mat \<Rightarrow> real \<Rightarrow> real \<Rightarrow> mat"
  overlap :: "keypoint \<Rightarrow> keypoint \<Rightarrow> real"

definition BORDER_DEFAULT :: int where
  "BORDER_DEFAULT = 4"

text \<open>The cast \<^verbatim>\<open>(int)\<close> of a \<^verbatim>\<open>float\<close> drops the fractional part.\<close>

definition trunc_int :: "real \<Rightarrow> int" where
  "trunc_int x = (if 0 \<le> x then \<lfloor>x\<rfloor> else \<lceil>x\<rceil>)"

text \<open>
  The inner loop (lines 166--177) walks the keypoints found so far. It returns the vector
  and the flag \<^verbatim>\<open>bOverlap\<close>; the \<^verbatim>\<open>break\<close> after a replacement is the branch that does not
  recurse.
\<close>

fun nms_scan ::
  "(keypoint \<Rightarrow> keypoint \<Rightarrow> real) \<Rightarrow> real \<Rightarrow> keypoint \<Rightarrow> keypoint list \<Rightarrow> bool
    \<Rightarrow> keypoint list \<times> bool" where
  "nms_scan ov maxOverlap newKeyPoint [] bOverlap = ([], bOverlap)"
| "nms_scan ov maxOverlap newKeyPoint (it # rest) bOverlap =
     (if ov newKeyPoint it > maxOverlap then
        (if response newKeyPoint > response it then (newKeyPoint # rest, True)
         else (case nms_scan ov maxOverlap newKeyPoint rest True of
                 (rest', b) \<Rightarrow> (it # rest', b)))
      else (case nms_scan ov maxOverlap newKeyPoint rest bOverlap of
              (rest', b) \<Rightarrow> (it # rest', b)))"

text \<open>Lines 166--182: the scan, then \<^verbatim>\<open>push_back\<close> when no overlap was seen.\<close>

definition nms_insert ::
  "(keypoint \<Rightarrow> keypoint \<Rightarrow> real) \<Rightarrow> real \<Rightarrow> keypoint \<Rightarrow> keypoint list \<Rightarrow> keypoint list" where
  "nms_insert ov maxOverlap newKeyPoint keypoints =
     (case nms_scan ov maxOverlap newKeyPoint keypoints False of
        (keypoints', bOverlap) \<Rightarrow>
          if \<not> bOverlap then keypoints' @ [newKeyPoint] else keypoints')"

text \<open>Lines 160--163: the keypoint built for pixel (row \<open>i\<close>, column \<open>j\<close>).\<close>

definition newKeyPoint_at :: "int \<Rightarrow> nat \<Rightarrow> nat \<Rightarrow> int \<Rightarrow> keypoint" where
  "newKeyPoint_at apertureSize i j resp =
     KeyPoint\<lparr>pt_x := real j, pt_y := real i,
       kp_size := real_of_int (2 * apertureSize), response := real_of_int resp\<rparr>"

text \<open>Lines 157--183: the body of the two loops, for one pixel.\<close>

definition harris_pixel ::
  "(keypoint \<Rightarrow> keypoint \<Rightarrow> real) \<Rightarrow> real \<Rightarrow> int \<Rightarrow> int \<Rightarrow> mat \<Rightarrow> nat \<Rightarrow> nat
    \<Rightarrow> keypoint list \<Rightarrow> keypoint list" where
  "harris_pixel ov maxOverlap minResponse apertureSize dst_norm i j keypoints =
     (let resp = trunc_int (at_f dst_norm i j) in
      if resp > minResponse
      then nms_insert ov maxOverlap (newKeyPoint_at apertureSize i j resp) keypoints
      else keypoints)"

text \<open>Lines 155--185: rows from the top, columns from the left in each row.\<close>

definition harris_scan ::
  "(keypoint \<Rightarrow> keypoint \<Rightarrow> real) \<Rightarrow> real \<Rightarrow> int \<Rightarrow> int \<Rightarrow> mat
    \<Rightarrow> keypoint list \<Rightarrow> keypoint list" where
  "harris_scan ov maxOverlap minResponse apertureSize dst_norm keypoints =
     fold (\<lambda>i. fold (\<lambda>j. harris_pixel ov maxOverlap minResponse apertureSize dst_norm i j)
                   [0..<cols dst_norm])
          [0..<rows dst_norm] keypoints"

text \<open>
  The normalised response map of an image (lines 135--145), with the constants of the
  source.
\<close>

definition harris_response :: "cv_harris \<Rightarrow> mat \<Rightarrow> mat" where
  "harris_response cv img =
     (let blockSize = 2; apertureSize = 3; k = 0.04; borderType = BORDER_DEFAULT;
          dst = cornerHarris cv img blockSize apertureSize k borderType
      in normalize cv dst 0 255)"

text \<open>
  \<^verbatim>\<open>detKeypointsHarris\<close>: the vector \<^verbatim>\<open>keypoints\<close> is passed by reference and is the result.
  The timing output and the window shown under \<^verbatim>\<open>bVis\<close> change no value and are left out.
\<close>

definition detKeypointsHarris :: "cv_harris \<Rightarrow> keypoint list \<Rightarrow> mat \<Rightarrow> keypoint list" where
  "detKeypointsHarris cv keypoints img =
     (let apertureSize = 3; minResponse = 120;
          dst_norm = harris_response cv img;
          maxOverlap = 0
      in harris_scan (overlap cv) maxOverlap minResponse apertureSize dst_norm keypoints)"

section \<open>Descriptor matching: \<^verbatim>\<open>matchDescriptors\<close>\<close>

text \<open>
  A \<^verbatim>\<open>cv::DescriptorMatcher\<close> is the pair of its two search routines. Each returns its
  output vector, or \<open>None\<close> when the library throws. \<^verbatim>\<open>cv::BFMatcher::create\<close>,
  \<^verbatim>\<open>cv::FlannBasedMatcher::create\<close> and \<^verbatim>\<open>cv::Mat::convertTo\<close> are parameters.
\<close>

datatype norm_type = NORM_HAMMING | NORM_L2

record matcher =
  match :: "mat \<Rightarrow> mat \<Rightarrow> dmatch list option"
  knnMatch :: "mat \<Rightarrow> mat \<Rightarrow> nat \<Rightarrow> dmatch list list option"

record cv_match =
  BFMatcher_create :: "norm_type \<Rightarrow> bool \<Rightarrow> matcher"
  FlannBasedMatcher_create :: matcher
  convertTo :: "mat \<Rightarrow> depth \<Rightarrow> mat"

text \<open>
  The arguments passed by reference that the function can change. The two keypoint
  vectors are never read or written and are left out.
\<close>

record match_state =
  descSource :: mat
  descRef :: mat
  matches :: "dmatch list"

definition min_desc_dist_ratio :: real where
  "min_desc_dist_ratio = 0.8"

text \<open>
  Lines 44--48, with \<open>ms\<close> for the vector \<^verbatim>\<open>matches\<close>. The condition reads elements 0
  and 1 of every neighbour list, whatever its length.
\<close>

fun ratio_filter :: "dmatch list list \<Rightarrow> dmatch list \<Rightarrow> dmatch list \<times> failure option" where
  "ratio_filter [] ms = (ms, None)"
| "ratio_filter (it # rest) ms =
     (if length it < 2 then (ms, Some OutOfRange)
      else if distance (it ! 0) < min_desc_dist_ratio * distance (it ! 1)
           then ratio_filter rest (ms @ [it ! 0])
           else ratio_filter rest ms)"

text \<open>Lines 11--29: the matcher is left empty when \<^verbatim>\<open>matcherType\<close> is neither name.\<close>

definition configure_matcher ::
  "cv_match \<Rightarrow> match_state \<Rightarrow> string \<Rightarrow> string \<Rightarrow> match_state \<times> matcher option" where
  "configure_matcher cv st descriptorType matcherType =
     (let crossCheck = False in
      if matcherType = ''MAT_BF'' then
        (let normType = (if descriptorType = ''DES_BINARY'' then NORM_HAMMING else NORM_L2)
         in (st, Some (BFMatcher_create cv normType crossCheck)))
      else if matcherType = ''MAT_FLANN'' then
        ((if mtype (descSource st) \<noteq> CV_32F \<or> mtype (descRef st) \<noteq> CV_32F
          then st\<lparr>descSource := convertTo cv (descSource st) CV_32F,
                  descRef := convertTo cv (descRef st) CV_32F\<rparr>
          else st),
         Some (FlannBasedMatcher_create cv))
      else (st, None))"

text \<open>Lines 31--49.\<close>

definition perform_matching ::
  "match_state \<Rightarrow> matcher option \<Rightarrow> string \<Rightarrow> match_state \<times> failure option" where
  "perform_matching st matcher selectorType =
     (if selectorType = ''SEL_NN'' then
        (case matcher of
           None \<Rightarrow> (st, Some NullHandle)
         | Some m \<Rightarrow>
             (case match m (descSource st) (descRef st) of
                None \<Rightarrow> (st, Some LibraryException)
              | Some ms \<Rightarrow> (st\<lparr>matches := ms\<rparr>, None)))
      else if selectorType = ''SEL_KNN'' then
        (case matcher of
           None \<Rightarrow> (st, Some NullHandle)
         | Some m \<Rightarrow>
             (case knnMatch m (descSource st) (descRef st) 2 of
                None \<Rightarrow> (st, Some LibraryException)
              | Some knn_matches \<Rightarrow>
                  (case ratio_filter knn_matches (matches st) of
                     (ms, f) \<Rightarrow> (st\<lparr>matches := ms\<rparr>, f))))
      else (st, None))"

text \<open>
  \<^verbatim>\<open>matchDescriptors\<close> returns the three arguments as the call leaves them, and how the
  call ended (\<open>None\<close>: it returned).
\<close>

definition matchDescriptors ::
  "cv_match \<Rightarrow> mat \<Rightarrow> mat \<Rightarrow> dmatch list \<Rightarrow> string \<Rightarrow> string \<Rightarrow> string
    \<Rightarrow> match_state \<times> failure option" where
  "matchDescriptors cv descSource0 descRef0 matches0 descriptorType matcherType selectorType =
     (case configure_matcher cv
             \<lparr>descSource = descSource0, descRef = descRef0, matches = matches0\<rparr>
             descriptorType matcherType of
        (st, matcher) \<Rightarrow> perform_matching st matcher selectorType)"

section \<open>Algorithm dispatch: \<^verbatim>\<open>descKeypoints\<close> and \<^verbatim>\<open>detKeypointsModern\<close>\<close>

text \<open>
  A \<^verbatim>\<open>cv::Feature2D\<close> is the pair of \<^verbatim>\<open>detect\<close> (which returns the keypoints) and
  \<^verbatim>\<open>compute\<close> (which returns the keypoints it kept and the descriptors); \<open>None\<close> when
  the library throws. The factory functions are parameters.
\<close>

datatype fast_type = TYPE_5_8 | TYPE_7_12 | TYPE_9_16

record feature2d =
  detect :: "mat \<Rightarrow> keypoint list option"
  compute :: "mat \<Rightarrow> keypoint list \<Rightarrow> (keypoint list \<times> mat) option"

record cv_features =
  BRISK_create :: "int \<Rightarrow> int \<Rightarrow> real \<Rightarrow> feature2d"
  ORB_create :: feature2d
  AKAZE_create :: feature2d
  FastFeatureDetector_create :: "int \<Rightarrow> bool \<Rightarrow> fast_type \<Rightarrow> feature2d"

text \<open>Lines 56--84: the handle \<^verbatim>\<open>extractor\<close> after the chain of comparisons.\<close>

definition select_extractor :: "cv_features \<Rightarrow> string \<Rightarrow> feature2d option" where
  "select_extractor cv descriptorType =
     (if descriptorType = ''BRISK'' then
        (let threshold = 30; octaves = 3; patternScale = 1
         in Some (BRISK_create cv threshold octaves patternScale))
      else if descriptorType = ''ORB'' then Some (ORB_create cv)
      else if descriptorType = ''AKAZE'' then Some (AKAZE_create cv)
      else if descriptorType = ''FREAK'' then None
      else if descriptorType = ''SIFT'' then None
      else None)"

text \<open>Lines 53--91, without the timing output.\<close>

definition descKeypoints ::
  "cv_features \<Rightarrow> keypoint list \<Rightarrow> mat \<Rightarrow> mat \<Rightarrow> string
    \<Rightarrow> (keypoint list \<times> mat) \<times> failure option" where
  "descKeypoints cv keypoints img descriptors descriptorType =
     (case select_extractor cv descriptorType of
        None \<Rightarrow> ((keypoints, descriptors), Some NullHandle)
      | Some extractor \<Rightarrow>
          (case compute extractor img keypoints of
             None \<Rightarrow> ((keypoints, descriptors), Some LibraryException)
           | Some (keypoints', descriptors') \<Rightarrow> ((keypoints', descriptors'), None)))"

text \<open>
  Lines 203--228: the handle \<^verbatim>\<open>detector\<close>. \<^verbatim>\<open>cv::BRISK::create()\<close> is the call with the
  default arguments of the library (30, 3, 1.0).
\<close>

definition select_detector :: "cv_features \<Rightarrow> string \<Rightarrow> feature2d option" where
  "select_detector cv detectorType =
     (if ''FAST'' = detectorType then
        (let thresholdFAST = 80; nonMaxSuppression = True; fastType = TYPE_9_16
         in Some (FastFeatureDetector_create cv thresholdFAST nonMaxSuppression fastType))
      else if ''BRISK'' = detectorType then Some (BRISK_create cv 30 3 1)
      else if ''ORB'' = detectorType then Some (ORB_create cv)
      else if ''AKAZE'' = detectorType then Some (AKAZE_create cv)
      else if ''FREAK'' = detectorType then None
      else if ''SIFT'' = detectorType then None
      else None)"

text \<open>Lines 201--243, without the timing output and the window.\<close>

definition detKeypointsModern ::
  "cv_features \<Rightarrow> keypoint list \<Rightarrow> mat \<Rightarrow> string \<Rightarrow> keypoint list \<times> failure option" where
  "detKeypointsModern cv keypoints img detectorType =
     (case select_detector cv detectorType of
        None \<Rightarrow> (keypoints, Some NullHandle)
      | Some detector \<Rightarrow>
          (case detect detector img of
             None \<Rightarrow> (keypoints, Some LibraryException)
           | Some keypoints' \<Rightarrow> (keypoints', None)))"

section \<open>Notions used in the statements\<close>

text \<open>
  The candidate keypoints of a response map, in the order of the scan: one for every
  pixel whose response, cut to an integer, is above the threshold.
\<close>

definition candidates :: "int \<Rightarrow> int \<Rightarrow> mat \<Rightarrow> keypoint list" where
  "candidates minResponse apertureSize dst_norm =
     concat (map (\<lambda>i. map (\<lambda>j. newKeyPoint_at apertureSize i j (trunc_int (at_f dst_norm i j)))
                          (filter (\<lambda>j. minResponse < trunc_int (at_f dst_norm i j))
                             [0..<cols dst_norm]))
                 [0..<rows dst_norm])"

text \<open>
  A candidate \<open>c\<close> beats a stored keypoint \<open>k\<close> when it overlaps \<open>k\<close> by more than the
  threshold and its response is strictly greater.
\<close>

definition beats ::
  "(keypoint \<Rightarrow> keypoint \<Rightarrow> real) \<Rightarrow> real \<Rightarrow> keypoint \<Rightarrow> keypoint \<Rightarrow> bool" where
  "beats ov maxOverlap c k = (ov c k > maxOverlap \<and> response c > response k)"

fun replace_first :: "('a \<Rightarrow> bool) \<Rightarrow> 'a \<Rightarrow> 'a list \<Rightarrow> 'a list option" where
  "replace_first P c [] = None"
| "replace_first P c (k # ks) =
     (if P k then Some (c # ks) else map_option (Cons k) (replace_first P c ks))"

text \<open>
  First-match suppression in words: the candidate takes the place of the first stored
  keypoint it beats; when it beats none, it is dropped if it overlaps some stored keypoint
  and appended otherwise.
\<close>

definition nms_first_match ::
  "(keypoint \<Rightarrow> keypoint \<Rightarrow> real) \<Rightarrow> real \<Rightarrow> keypoint \<Rightarrow> keypoint list \<Rightarrow> keypoint list" where
  "nms_first_match ov maxOverlap c ks =
     (case replace_first (beats ov maxOverlap c) c ks of
        Some ks' \<Rightarrow> ks'
      | None \<Rightarrow> if list_ex (\<lambda>k. ov c k > maxOverlap) ks then ks else ks @ [c])"

text \<open>
  The weak keypoints, for a threshold \<open>T\<close>, are those whose response is at most \<open>T\<close>.
  The candidates \<open>cs\<close> keep the weak apart, with respect to the keypoints \<open>seen\<close>
  before them, when no candidate overlaps by more than the threshold a keypoint seen
  before or a candidate before it, if one of the two is weak.
\<close>

fun weak_apart ::
  "(keypoint \<Rightarrow> keypoint \<Rightarrow> real) \<Rightarrow> real \<Rightarrow> int \<Rightarrow> keypoint list \<Rightarrow> keypoint list \<Rightarrow> bool" where
  "weak_apart ov maxOverlap T seen [] = True"
| "weak_apart ov maxOverlap T seen (c # cs) =
     (\<not> list_ex (\<lambda>k. (response c \<le> real_of_int T \<or> response k \<le> real_of_int T) \<and>
                        ov c k > maxOverlap) seen \<and>
      weak_apart ov maxOverlap T (seen @ [c]) cs)"

text \<open>
  The candidates \<open>cs\<close> are clustered when overlapping by more than the threshold is an
  equivalence relation on them: every candidate overlaps itself, and the relation is
  symmetric and transitive. The candidates then fall into clusters; all candidates of a
  cluster overlap each other and none overlaps a candidate of another cluster.
\<close>

definition clustered ::
  "(keypoint \<Rightarrow> keypoint \<Rightarrow> real) \<Rightarrow> real \<Rightarrow> keypoint list \<Rightarrow> bool" where
  "clustered ov maxOverlap cs =
     list_all (\<lambda>a. ov a a > maxOverlap \<and>
        list_all (\<lambda>b. (ov a b > maxOverlap \<longrightarrow> ov b a > maxOverlap) \<and>
           list_all (\<lambda>c. ov a b > maxOverlap \<and> ov b c > maxOverlap \<longrightarrow> ov a c > maxOverlap) cs)
          cs) cs"

text \<open>
  What the statements about matching assume of the library, which is not part of the
  repository. A nearest-neighbour search that returns gives one match for every source
  descriptor when there is a reference descriptor at all; a k-nearest-neighbour search
  that returns gives one list for every source descriptor, and no list is longer than
  the number of reference descriptors. A conversion keeps the number of rows.
\<close>

definition matcher_contract :: "matcher \<Rightarrow> bool" where
  "matcher_contract m =
     ((\<forall>src ref ms. match m src ref = Some ms \<longrightarrow> 0 < rows ref \<longrightarrow> length ms = rows src) \<and>
      (\<forall>src ref k kn. knnMatch m src ref k = Some kn \<longrightarrow>
         length kn = rows src \<and> (\<forall>l \<in> set kn. length l \<le> rows ref)))"

definition cv_match_contract :: "cv_match \<Rightarrow> bool" where
  "cv_match_contract cv =
     ((\<forall>n c. matcher_contract (BFMatcher_create cv n c)) \<and>
      matcher_contract (FlannBasedMatcher_create cv) \<and>
      (\<forall>m d. rows (convertTo cv m d) = rows m))"

section \<open>Concrete inputs for the examples\<close>

text \<open>
  The examples need values for the library parameters. \<open>disc_overlap\<close> stands for
  \<^verbatim>\<open>cv::KeyPoint::overlap\<close>: that function returns the intersection over union of the two
  discs whose diameters are the keypoint sizes, which is positive exactly when the distance
  of the centres is less than the sum of the radii. \<open>disc_overlap\<close> is 1 in that case and
  0 otherwise; with \<^verbatim>\<open>maxOverlap = 0.0\<close> the source only looks at the sign.
\<close>

definition disc_overlap :: "keypoint \<Rightarrow> keypoint \<Rightarrow> real" where
  "disc_overlap kp1 kp2 =
     (let a = kp_size kp1 * 0.5; b = kp_size kp2 * 0.5;
          c2 = (pt_x kp1 - pt_x kp2) * (pt_x kp1 - pt_x kp2)
             + (pt_y kp1 - pt_y kp2) * (pt_y kp1 - pt_y kp2)
      in if c2 < (a + b) * (a + b) then 1 else 0)"

text \<open>A matrix given by its non-zero entries, as (row, column) and value.\<close>

definition sparse_map :: "depth \<Rightarrow> nat \<Rightarrow> nat \<Rightarrow> ((nat \<times> nat) \<times> real) list \<Rightarrow> mat" where
  "sparse_map d r c ps = \<lparr>mtype = d, rows = r, cols = c,
     at_f = (\<lambda>i j. case map_of ps (i, j) of Some v \<Rightarrow> v | None \<Rightarrow> 0)\<rparr>"

text \<open>
  In the examples the image is given by its normalised response map: the two library
  routines hand their input on.
\<close>

definition map_cv :: cv_harris where
  "map_cv = \<lparr>cornerHarris = (\<lambda>img _ _ _ _. img), normalize = (\<lambda>dst _ _. dst),
     overlap = disc_overlap\<rparr>"

text \<open>
  Response maps of one row: two adjacent strong responses and a weak one far away; a
  cluster of three adjacent responses, the outer two weak, and a strong one far away.
\<close>

definition strong_pair_map :: mat where
  "strong_pair_map = sparse_map CV_32F 1 13 [((0, 0), 200), ((0, 1), 255), ((0, 12), 130)]"

definition cluster_map :: mat where
  "cluster_map =
     sparse_map CV_32F 1 13 [((0, 0), 130), ((0, 1), 200), ((0, 2), 140), ((0, 12), 200)]"

text \<open>
  An exhaustive matcher for the examples: the distance of two descriptors is the sum of
  the absolute differences of their entries, the neighbours of a source descriptor are
  all reference descriptors, nearest first.
\<close>

definition mat_row :: "mat \<Rightarrow> nat \<Rightarrow> real list" where
  "mat_row m i = map (at_f m i) [0..<cols m]"

definition abs_distance :: "real list \<Rightarrow> real list \<Rightarrow> real" where
  "abs_distance xs ys = sum_list (map2 (\<lambda>x y. \<bar>x - y\<bar>) xs ys)"

definition neighbours :: "mat \<Rightarrow> mat \<Rightarrow> nat \<Rightarrow> dmatch list" where
  "neighbours src ref q =
     sort_key distance
       (map (\<lambda>t. DMatch (int q) (int t) 0 (abs_distance (mat_row src q) (mat_row ref t)))
            [0..<rows ref])"

definition exhaustive_matcher :: matcher where
  "exhaustive_matcher =
     \<lparr>match = (\<lambda>src ref. Some (concat (map (\<lambda>q. take 1 (neighbours src ref q)) [0..<rows src]))),
      knnMatch = (\<lambda>src ref k. Some (map (\<lambda>q. take k (neighbours src ref q)) [0..<rows src]))\<rparr>"

definition example_cv :: cv_match where
  "example_cv = \<lparr>BFMatcher_create = (\<lambda>_ _. exhaustive_matcher),
     FlannBasedMatcher_create = exhaustive_matcher,
     convertTo = (\<lambda>m d. m\<lparr>mtype := d\<rparr>)\<rparr>"

text \<open>
  Descriptors of one entry each. The two source descriptors are 0 and 100; the four
  reference descriptors are 10, -20, 115 and 117, so that the two nearest neighbours are at
  the distances 10 and 20 for the first source descriptor and 15 and 17 for the second.
\<close>

definition two_sources :: mat where
  "two_sources = sparse_map CV_32F 2 1 [((1, 0), 100)]"

definition four_references :: mat where
  "four_references =
     sparse_map CV_32F 4 1 [((0, 0), 10), ((1, 0), - 20), ((2, 0), 115), ((3, 0), 117)]"

definition one_source :: mat where
  "one_source = sparse_map CV_32F 1 1 [((0, 0), 7)]"

definition one_reference :: mat where
  "one_reference = sparse_map CV_32F 1 1 [((0, 0), 9)]"

text \<open>Binary descriptors: the element type is 8-bit unsigned.\<close>

definition binary_source :: mat where
  "binary_source = sparse_map CV_8U 1 1 [((0, 0), 7)]"

definition binary_references :: mat where
  "binary_references = sparse_map CV_8U 2 1 [((0, 0), 5), ((1, 0), 9)]"

text \<open>Library factories for the dispatch examples: every algorithm finds nothing.\<close>

definition idle_feature :: feature2d where
  "idle_feature = \<lparr>detect = (\<lambda>img. Some []), compute = (\<lambda>img kps. Some (kps, img))\<rparr>"

definition idle_cv :: cv_features where
  "idle_cv = \<lparr>BRISK_create = (\<lambda>_ _ _. idle_feature), ORB_create = idle_feature,
     AKAZE_create = idle_feature, FastFeatureDetector_create = (\<lambda>_ _ _. idle_feature)\<rparr>"

section \<open>The suppression loop\<close>

lemma nms_scan_first_match:
  "nms_scan ov mo c ks b =
     (case replace_first (beats ov mo c) c ks of
        Some ks' \<Rightarrow> (ks', True)
      | None \<Rightarrow> (ks, b \<or> list_ex (\<lambda>k. ov c k > mo) ks))"
  by (induction ks arbitrary: b) (auto simp: beats_def split: option.splits)

lemma nms_scan_length: "nms_scan ov mo c ks b = (ks', b') \<Longrightarrow> length ks' = length ks"
  by (induction ks arbitrary: b ks' b') (auto split: if_splits prod.splits)

lemma nms_scan_nth:
  "n < length ks \<Longrightarrow>
     fst (nms_scan ov mo c ks b) ! n = ks ! n \<or>
     (fst (nms_scan ov mo c ks b) ! n = c \<and> beats ov mo c (ks ! n))"
proof (induction ks arbitrary: b n)
  case Nil
  then show ?case by simp
next
  case (Cons k ks)
  show ?case
  proof (cases n)
    case 0
    then show ?thesis by (auto simp: beats_def split: prod.splits)
  next
    case (Suc m)
    with Cons.prems have m: "m < length ks" by simp
    from Cons.IH [OF m, of True] Cons.IH [OF m, of b] Suc
    show ?thesis by (auto split: prod.splits)
  qed
qed

lemma nms_insert_length: "length ks \<le> length (nms_insert ov mo c ks)"
  by (auto simp: nms_insert_def split: prod.splits dest: nms_scan_length)

lemma nms_insert_nth:
  assumes "n < length ks"
  shows "nms_insert ov mo c ks ! n = ks ! n \<or>
         (nms_insert ov mo c ks ! n = c \<and> beats ov mo c (ks ! n))"
  using nms_scan_nth [OF assms, of ov mo c False] assms
  by (auto simp: nms_insert_def nth_append split: prod.splits dest: nms_scan_length)

text \<open>
  The two nested loops insert the candidates of the response map one after the other.
\<close>

lemma fold_harris_row:
  "fold (\<lambda>j. harris_pixel ov mo thr ap dst i j) js kps =
   fold (nms_insert ov mo)
     (map (\<lambda>j. newKeyPoint_at ap i j (trunc_int (at_f dst i j)))
        (filter (\<lambda>j. thr < trunc_int (at_f dst i j)) js)) kps"
  by (induction js arbitrary: kps) (simp_all add: harris_pixel_def Let_def)

lemma harris_scan_candidates:
  "harris_scan ov mo thr ap dst kps = fold (nms_insert ov mo) (candidates thr ap dst) kps"
proof -
  have "fold (\<lambda>i. fold (\<lambda>j. harris_pixel ov mo thr ap dst i j) js) is kps =
        fold (nms_insert ov mo)
          (concat (map (\<lambda>i. map (\<lambda>j. newKeyPoint_at ap i j (trunc_int (at_f dst i j)))
                          (filter (\<lambda>j. thr < trunc_int (at_f dst i j)) js)) is)) kps"
    for js "is"
    by (induction "is" arbitrary: kps) (simp_all add: fold_harris_row)
  then show ?thesis by (simp add: harris_scan_def candidates_def)
qed

lemma detKeypointsHarris_fold:
  "detKeypointsHarris cv keypoints img =
     fold (nms_insert (overlap cv) 0) (candidates 120 3 (harris_response cv img)) keypoints"
  by (simp add: detKeypointsHarris_def harris_scan_candidates)

text \<open>
  Insertion never shortens the vector, and changes a position only by putting there a
  candidate that beats the keypoint it replaces.
\<close>

lemma fold_nms_insert_length: "length ks \<le> length (fold (nms_insert ov mo) cs ks)"
proof (induction cs arbitrary: ks)
  case Nil
  show ?case by simp
next
  case (Cons c cs)
  have "length ks \<le> length (nms_insert ov mo c ks)" by (rule nms_insert_length)
  also have "\<dots> \<le> length (fold (nms_insert ov mo) cs (nms_insert ov mo c ks))" by (rule Cons.IH)
  finally show ?case by simp
qed

lemma fold_nms_insert_nth:
  "n < length ks \<Longrightarrow>
     fold (nms_insert ov mo) cs ks ! n = ks ! n \<or>
     (\<exists>c \<in> set cs. beats ov mo c (ks ! n))"
proof (induction cs arbitrary: ks)
  case Nil
  show ?case by simp
next
  case (Cons c cs)
  let ?ks1 = "nms_insert ov mo c ks"
  from Cons.prems nms_insert_length [of ks ov mo c] have n1: "n < length ?ks1" by simp
  from nms_insert_nth [OF Cons.prems, of ov mo c]
  show ?case
  proof
    assume same: "?ks1 ! n = ks ! n"
    from Cons.IH [OF n1] same show ?thesis by auto
  next
    assume "?ks1 ! n = c \<and> beats ov mo c (ks ! n)"
    then show ?thesis by auto
  qed
qed

text \<open>
  Raising the threshold removes candidates and keeps the order of the others.
\<close>

lemma subseq_filter_weaker:
  "(\<And>x. P x \<Longrightarrow> Q x) \<Longrightarrow> subseq (filter P xs) (filter Q xs)"
  by (induction xs) auto

lemma subseq_concat_map:
  "(\<And>x. subseq (f x) (g x)) \<Longrightarrow> subseq (concat (map f xs)) (concat (map g xs))"
  by (induction xs) (auto intro: list_emb_append_mono)

lemma candidates_subseq:
  assumes "T1 \<le> T2"
  shows "subseq (candidates T2 ap dst) (candidates T1 ap dst)"
  unfolding candidates_def using assms
  by (intro subseq_concat_map subseq_map subseq_filter_weaker) simp

text \<open>
  The candidates at the higher threshold are the candidates at the lower one whose response
  is above it.
\<close>

lemma candidates_filter:
  assumes "T1 \<le> T2"
  shows "candidates T2 ap dst =
         filter (\<lambda>c. real_of_int T2 < response c) (candidates T1 ap dst)"
proof -
  have "filter (\<lambda>j. T2 < trunc_int (at_f dst i j)) js =
        filter (\<lambda>j. T2 < trunc_int (at_f dst i j)) (filter (\<lambda>j. T1 < trunc_int (at_f dst i j)) js)"
    for i js
    using assms by (induction js) auto
  then show ?thesis
    by (simp add: candidates_def filter_concat filter_map o_def newKeyPoint_at_def KeyPoint_def)
qed

text \<open>
  Keypoints that a candidate does not overlap do not change what its insertion does to the
  others: insertion commutes with leaving them out.
\<close>

lemma nms_scan_filter:
  assumes "S c" and "\<forall>k \<in> set L. \<not> S k \<longrightarrow> \<not> ov c k > mo"
  shows "nms_scan ov mo c (filter S L) b =
         (filter S (fst (nms_scan ov mo c L b)), snd (nms_scan ov mo c L b))"
  using assms by (induction L arbitrary: b) (auto split: prod.splits)

lemma nms_insert_length_flag:
  "length (nms_insert ov mo c L) =
     length L + (if snd (nms_scan ov mo c L False) then 0 else 1)"
  by (auto simp: nms_insert_def split: prod.splits dest: nms_scan_length)

lemma nms_insert_filter:
  assumes "S c" and "\<forall>k \<in> set L. \<not> S k \<longrightarrow> \<not> ov c k > mo"
  shows "filter S (nms_insert ov mo c L) = nms_insert ov mo c (filter S L)"
  using nms_scan_filter [where S = S and c = c and L = L and ov = ov and mo = mo and b = False] assms
  by (auto simp: nms_insert_def split: prod.splits)

lemma nms_insert_scan_set:
  "nms_scan ov mo c L b = (L', b') \<Longrightarrow> set L' \<subseteq> insert c (set L)"
  by (induction L arbitrary: b L' b') (fastforce split: if_splits prod.splits)+

lemma nms_insert_set: "set (nms_insert ov mo c L) \<subseteq> insert c (set L)"
  using nms_insert_scan_set [of ov mo c L False]
  by (cases "nms_scan ov mo c L False") (auto simp: nms_insert_def)

text \<open>
  What insertion leaves behind a given position is what was there, or the candidate.
\<close>

lemma nms_scan_drop:
  "nms_scan ov mo c L b = (L', b') \<Longrightarrow> set (drop n L') \<subseteq> insert c (set (drop n L))"
proof (induction L arbitrary: b L' b' n)
  case Nil
  then show ?case by simp
next
  case (Cons k L)
  show ?case
  proof (cases n)
    case 0
    from Cons.prems nms_insert_scan_set [of ov mo c "k # L" b L' b'] 0 show ?thesis by simp
  next
    case (Suc m)
    obtain L1 b1 where r1: "nms_scan ov mo c L True = (L1, b1)"
      by (cases "nms_scan ov mo c L True")
    obtain L2 b2 where r2: "nms_scan ov mo c L b = (L2, b2)"
      by (cases "nms_scan ov mo c L b")
    from Cons.IH [OF r1, of m] Cons.IH [OF r2, of m] Cons.prems r1 r2 Suc
    show ?thesis by (auto split: if_splits)
  qed
qed

lemma nms_insert_drop:
  "set (drop n (nms_insert ov mo c L)) \<subseteq> insert c (set (drop n L))"
proof -
  obtain L' b' where r: "nms_scan ov mo c L False = (L', b')"
    by (cases "nms_scan ov mo c L False")
  from nms_scan_drop [OF r, of n] nms_scan_length [OF r] r show ?thesis
    by (auto simp: nms_insert_def dest: in_set_dropD)
qed

lemma fold_nms_insert_drop:
  "set (drop n (fold (nms_insert ov mo) cs L)) \<subseteq> set cs \<union> set (drop n L)"
proof (induction cs arbitrary: L)
  case Nil
  show ?case by simp
next
  case (Cons c cs)
  from Cons.IH [of "nms_insert ov mo c L"] nms_insert_drop [of n ov mo c L]
  show ?case by auto
qed

lemma nms_insert_no_overlap:
  assumes "\<forall>k \<in> set L. \<not> ov c k > mo"
  shows "nms_insert ov mo c L = L @ [c]"
proof -
  have "nms_scan ov mo c L b = (L, b)" for b
    using assms by (induction L arbitrary: b) auto
  then show ?thesis by (simp add: nms_insert_def)
qed

text \<open>
  When the weak are kept apart, the scan of all candidates and the scan of the candidates
  that are not weak agree on the keypoints that are not weak, and the first is at least as
  long.
\<close>

lemma weak_apart_fold:
  assumes "weak_apart ov mo T seen cs"
    and "set L1 \<subseteq> set seen" and "set L2 \<subseteq> set seen"
    and "filter (\<lambda>k. real_of_int T < response k) L1 = filter (\<lambda>k. real_of_int T < response k) L2"
    and "length L2 \<le> length L1"
  shows "length (fold (nms_insert ov mo) (filter (\<lambda>k. real_of_int T < response k) cs) L2)
         \<le> length (fold (nms_insert ov mo) cs L1)"
  using assms
proof (induction cs arbitrary: seen L1 L2)
  case Nil
  then show ?case by simp
next
  case (Cons c cs)
  let ?S = "\<lambda>k. real_of_int T < response k"
  from Cons.prems(1) have apart:
    "\<forall>k \<in> set seen. (\<not> ?S c \<or> \<not> ?S k) \<longrightarrow> \<not> ov c k > mo"
    and rest: "weak_apart ov mo T (seen @ [c]) cs"
    by (auto simp: list_ex_iff not_less)
  show ?case
  proof (cases "?S c")
    case True
    from apart True Cons.prems(2) have h1: "\<forall>k \<in> set L1. \<not> ?S k \<longrightarrow> \<not> ov c k > mo" by auto
    from apart True Cons.prems(3) have h2: "\<forall>k \<in> set L2. \<not> ?S k \<longrightarrow> \<not> ov c k > mo" by auto
    let ?L1 = "nms_insert ov mo c L1" and ?L2 = "nms_insert ov mo c L2"
    have f: "filter ?S ?L1 = filter ?S ?L2"
      using nms_insert_filter [where S = ?S and c = c and L = L1 and ov = ov and mo = mo]
            nms_insert_filter [where S = ?S and c = c and L = L2 and ov = ov and mo = mo]
            True h1 h2 Cons.prems(4)
      by simp
    have "snd (nms_scan ov mo c L1 False) = snd (nms_scan ov mo c L2 False)"
      using nms_scan_filter [where S = ?S and c = c and L = L1 and ov = ov and mo = mo and b = False]
            nms_scan_filter [where S = ?S and c = c and L = L2 and ov = ov and mo = mo and b = False]
            True h1 h2 Cons.prems(4)
      by simp
    with Cons.prems(5) have l: "length ?L2 \<le> length ?L1"
      by (simp add: nms_insert_length_flag)
    have s1: "set ?L1 \<subseteq> set (seen @ [c])"
      using nms_insert_set [of ov mo c L1] Cons.prems(2) by auto
    have s2: "set ?L2 \<subseteq> set (seen @ [c])"
      using nms_insert_set [of ov mo c L2] Cons.prems(3) by auto
    from Cons.IH [OF rest s1 s2 f l] True show ?thesis by simp
  next
    case False
    from apart False Cons.prems(2) have "\<forall>k \<in> set L1. \<not> ov c k > mo" by auto
    then have app: "nms_insert ov mo c L1 = L1 @ [c]" by (rule nms_insert_no_overlap)
    have s1: "set (L1 @ [c]) \<subseteq> set (seen @ [c])" using Cons.prems(2) by auto
    have s2: "set L2 \<subseteq> set (seen @ [c])" using Cons.prems(3) by auto
    have f: "filter ?S (L1 @ [c]) = filter ?S L2" using False Cons.prems(4) by simp
    have l: "length L2 \<le> length (L1 @ [c])" using Cons.prems(5) by simp
    from Cons.IH [OF rest s1 s2 f l] False app show ?thesis by simp
  qed
qed

text \<open>
  Clustered candidates: the stored keypoints are always pairwise free of overlap, one for
  every cluster met so far, so their number is the number of clusters.
\<close>

lemma replace_first_Some:
  "replace_first P c L = Some L' \<Longrightarrow>
     \<exists>pre k post. L = pre @ k # post \<and> P k \<and> L' = pre @ c # post"
proof (induction L arbitrary: L')
  case Nil
  then show ?case by simp
next
  case (Cons a L)
  show ?case
  proof (cases "P a")
    case True
    with Cons.prems have "a # L = [] @ a # L \<and> P a \<and> L' = [] @ c # L" by simp
    then show ?thesis by blast
  next
    case False
    with Cons.prems obtain L0 where r: "replace_first P c L = Some L0" and L': "L' = a # L0"
      by auto
    from Cons.IH [OF r] obtain pre k post
      where "L = pre @ k # post" "P k" "L0 = pre @ c # post" by blast
    with L' have "a # L = (a # pre) @ k # post \<and> P k \<and> L' = (a # pre) @ c # post" by simp
    then show ?thesis by blast
  qed
qed

lemma replace_first_None: "replace_first P c L = None \<Longrightarrow> \<forall>k \<in> set L. \<not> P k"
  by (induction L) (auto split: if_splits)


lemma cluster_step:
  assumes refl: "\<forall>a \<in> S. mo < ov a a"
    and sym: "\<forall>a \<in> S. \<forall>b \<in> S. mo < ov a b \<longrightarrow> mo < ov b a"
    and trans: "\<forall>a \<in> S. \<forall>b \<in> S. \<forall>d \<in> S. mo < ov a b \<longrightarrow> mo < ov b d \<longrightarrow> mo < ov a d"
    and c: "c \<in> S" and sub: "set L \<subseteq> S" and dist: "distinct L"
    and sep: "\<forall>a \<in> set L. \<forall>b \<in> set L. a \<noteq> b \<longrightarrow> \<not> mo < ov a b"
  shows "set (nms_insert ov mo c L) \<subseteq> S \<and> distinct (nms_insert ov mo c L) \<and>
         (\<forall>a \<in> set (nms_insert ov mo c L). \<forall>b \<in> set (nms_insert ov mo c L).
            a \<noteq> b \<longrightarrow> \<not> mo < ov a b) \<and>
         (\<forall>x \<in> S. (mo < ov x c \<or> (\<exists>k \<in> set L. mo < ov x k)) \<longrightarrow>
            (\<exists>k \<in> set (nms_insert ov mo c L). mo < ov x k))"
proof (cases "replace_first (beats ov mo c) c L")
  case None
  show ?thesis
  proof (cases "list_ex (\<lambda>k. ov c k > mo) L")
    case True
    with None have eq: "nms_insert ov mo c L = L"
      by (simp add: nms_insert_def nms_scan_first_match)
    from True obtain k0 where k0: "k0 \<in> set L" "mo < ov c k0" by (auto simp: list_ex_iff)
    have "\<exists>k \<in> set L. mo < ov x k" if "x \<in> S" "mo < ov x c" for x
      using that k0 trans c sub by blast
    with eq sub dist sep show ?thesis by auto
  next
    case False
    with None have eq: "nms_insert ov mo c L = L @ [c]"
      by (simp add: nms_insert_def nms_scan_first_match)
    from False have no: "\<forall>k \<in> set L. \<not> mo < ov c k" by (auto simp: list_ex_iff)
    with refl c have notin: "c \<notin> set L" by blast
    from no sym c sub have no': "\<forall>k \<in> set L. \<not> mo < ov k c" by blast
    from eq sub c dist notin sep no no' show ?thesis by auto
  qed
next
  case (Some L')
  from replace_first_Some [OF Some] obtain pre k post
    where L: "L = pre @ k # post" and bk: "beats ov mo c k" and L': "L' = pre @ c # post"
    by blast
  from Some have eq: "nms_insert ov mo c L = pre @ c # post"
    by (simp add: nms_insert_def nms_scan_first_match L')
  from bk have ck: "mo < ov c k" by (simp add: beats_def)
  from L sub have kS: "k \<in> S" and restS: "set pre \<union> set post \<subseteq> S" by auto
  from sym c kS ck have kc: "mo < ov k c" by blast
  from L dist have knot: "k \<notin> set pre \<union> set post" by auto
  have others: "\<not> mo < ov c b \<and> \<not> mo < ov b c \<and> b \<noteq> c" if b: "b \<in> set pre \<union> set post" for b
  proof -
    from b restS have bS: "b \<in> S" by auto
    from b knot have bk': "b \<noteq> k" by auto
    from b L have bL: "b \<in> set L" and kL: "k \<in> set L" by auto
    from sep bL kL bk' have nbk: "\<not> mo < ov b k" and nkb: "\<not> mo < ov k b" by auto
    have "\<not> mo < ov c b" using trans kS c bS kc nkb by blast
    moreover have "\<not> mo < ov b c" using trans bS c kS ck nbk by blast
    moreover have "b \<noteq> c" using ck nbk by auto
    ultimately show ?thesis by simp
  qed
  have sep_rest: "\<forall>a \<in> set pre \<union> set post. \<forall>b \<in> set pre \<union> set post. a \<noteq> b \<longrightarrow> \<not> mo < ov a b"
    using sep L by auto
  have d: "distinct (pre @ c # post)" using dist L others by auto
  have s: "\<forall>a \<in> set (pre @ c # post). \<forall>b \<in> set (pre @ c # post). a \<noteq> b \<longrightarrow> \<not> mo < ov a b"
    using sep_rest others by auto
  have cov: "\<exists>k' \<in> set (pre @ c # post). mo < ov x k'"
    if x: "x \<in> S" and h: "mo < ov x c \<or> (\<exists>k' \<in> set L. mo < ov x k')" for x
  proof -
    from h show ?thesis
    proof
      assume "mo < ov x c"
      then show ?thesis by auto
    next
      assume "\<exists>k' \<in> set L. mo < ov x k'"
      then obtain k' where k': "k' \<in> set L" "mo < ov x k'" by blast
      show ?thesis
      proof (cases "k' = k")
        case True
        with k' trans x kS c kc have "mo < ov x c" by blast
        then show ?thesis by auto
      next
        case False
        with k' L show ?thesis by auto
      qed
    qed
  qed
  from eq d s cov restS c show ?thesis by auto
qed


lemma cluster_fold:
  assumes refl: "\<forall>a \<in> S. mo < ov a a"
    and sym: "\<forall>a \<in> S. \<forall>b \<in> S. mo < ov a b \<longrightarrow> mo < ov b a"
    and trans: "\<forall>a \<in> S. \<forall>b \<in> S. \<forall>d \<in> S. mo < ov a b \<longrightarrow> mo < ov b d \<longrightarrow> mo < ov a d"
    and cs: "set cs \<subseteq> S" and sub: "set L \<subseteq> S" and dist: "distinct L"
    and sep: "\<forall>a \<in> set L. \<forall>b \<in> set L. a \<noteq> b \<longrightarrow> \<not> mo < ov a b"
  shows "set (fold (nms_insert ov mo) cs L) \<subseteq> S \<and> distinct (fold (nms_insert ov mo) cs L) \<and>
         (\<forall>a \<in> set (fold (nms_insert ov mo) cs L). \<forall>b \<in> set (fold (nms_insert ov mo) cs L).
            a \<noteq> b \<longrightarrow> \<not> mo < ov a b) \<and>
         (\<forall>x \<in> S. ((\<exists>c \<in> set cs. mo < ov x c) \<or> (\<exists>k \<in> set L. mo < ov x k)) \<longrightarrow>
            (\<exists>k \<in> set (fold (nms_insert ov mo) cs L). mo < ov x k))"
  using cs sub dist sep
proof (induction cs arbitrary: L)
  case Nil
  then show ?case by simp
next
  case (Cons c cs)
  let ?L = "nms_insert ov mo c L"
  from Cons.prems(1) have cS: "c \<in> S" and csS: "set cs \<subseteq> S" by auto
  from cluster_step [OF refl sym trans cS Cons.prems(2) Cons.prems(3) Cons.prems(4)]
  have s1: "set ?L \<subseteq> S" and d1: "distinct ?L"
    and p1: "\<forall>a \<in> set ?L. \<forall>b \<in> set ?L. a \<noteq> b \<longrightarrow> \<not> mo < ov a b"
    and c1: "\<forall>x \<in> S. (mo < ov x c \<or> (\<exists>k \<in> set L. mo < ov x k)) \<longrightarrow> (\<exists>k \<in> set ?L. mo < ov x k)"
    by blast+
  from Cons.IH [OF csS s1 d1 p1]
  have s2: "set (fold (nms_insert ov mo) cs ?L) \<subseteq> S"
    and d2: "distinct (fold (nms_insert ov mo) cs ?L)"
    and p2: "\<forall>a \<in> set (fold (nms_insert ov mo) cs ?L). \<forall>b \<in> set (fold (nms_insert ov mo) cs ?L).
               a \<noteq> b \<longrightarrow> \<not> mo < ov a b"
    and c2: "\<forall>x \<in> S. ((\<exists>c \<in> set cs. mo < ov x c) \<or> (\<exists>k \<in> set ?L. mo < ov x k)) \<longrightarrow>
               (\<exists>k \<in> set (fold (nms_insert ov mo) cs ?L). mo < ov x k)"
    by blast+
  have "\<exists>k \<in> set (fold (nms_insert ov mo) cs ?L). mo < ov x k"
    if "x \<in> S" "(\<exists>c' \<in> set (c # cs). mo < ov x c') \<or> (\<exists>k \<in> set L. mo < ov x k)" for x
    using that c1 c2 by auto
  with s2 d2 p2 show ?case by simp
qed



lemma clustered_equiv:
  assumes cl: "clustered ov mo cs1"
  shows "(\<forall>a \<in> set cs1. mo < ov a a) \<and>
         (\<forall>a \<in> set cs1. \<forall>b \<in> set cs1. mo < ov a b \<longrightarrow> mo < ov b a) \<and>
         (\<forall>a \<in> set cs1. \<forall>b \<in> set cs1. \<forall>d \<in> set cs1. mo < ov a b \<longrightarrow> mo < ov b d \<longrightarrow> mo < ov a d)"
proof -
  note all = cl [unfolded clustered_def list_all_iff]
  have refl: "\<forall>a \<in> set cs1. mo < ov a a"
  proof
    fix a assume a: "a \<in> set cs1"
    from bspec [OF all a] show "mo < ov a a" by (rule conjunct1)
  qed
  have sym: "\<forall>a \<in> set cs1. \<forall>b \<in> set cs1. mo < ov a b \<longrightarrow> mo < ov b a"
  proof (intro ballI impI)
    fix a b assume a: "a \<in> set cs1" and b: "b \<in> set cs1" and ab: "mo < ov a b"
    from bspec [OF all a] have "\<forall>b \<in> set cs1. (mo < ov a b \<longrightarrow> mo < ov b a) \<and>
         (\<forall>d \<in> set cs1. mo < ov a b \<and> mo < ov b d \<longrightarrow> mo < ov a d)"
      by (rule conjunct2)
    from bspec [OF this b] ab show "mo < ov b a" by simp
  qed
  have trans: "\<forall>a \<in> set cs1. \<forall>b \<in> set cs1. \<forall>d \<in> set cs1.
      mo < ov a b \<longrightarrow> mo < ov b d \<longrightarrow> mo < ov a d"
  proof (intro ballI impI)
    fix a b d assume a: "a \<in> set cs1" and b: "b \<in> set cs1" and d: "d \<in> set cs1"
      and ab: "mo < ov a b" and bd: "mo < ov b d"
    from bspec [OF all a] have "\<forall>b \<in> set cs1. (mo < ov a b \<longrightarrow> mo < ov b a) \<and>
         (\<forall>d \<in> set cs1. mo < ov a b \<and> mo < ov b d \<longrightarrow> mo < ov a d)"
      by (rule conjunct2)
    from bspec [OF this b] have "\<forall>d \<in> set cs1. mo < ov a b \<and> mo < ov b d \<longrightarrow> mo < ov a d"
      by (rule conjunct2)
    from bspec [OF this d] ab bd show "mo < ov a d" by simp
  qed
  from refl sym trans show ?thesis by (intro conjI)
qed

lemma clustered_count:
  assumes cl: "clustered ov mo cs1" and sub: "set cs2 \<subseteq> set cs1"
  shows "length (fold (nms_insert ov mo) cs2 []) \<le> length (fold (nms_insert ov mo) cs1 [])"
proof -
  let ?S = "set cs1"
  let ?L1 = "fold (nms_insert ov mo) cs1 []" and ?L2 = "fold (nms_insert ov mo) cs2 []"
  from clustered_equiv [OF cl] have refl: "\<forall>a \<in> ?S. mo < ov a a" by (rule conjunct1)
  from clustered_equiv [OF cl]
  have sym: "\<forall>a \<in> ?S. \<forall>b \<in> ?S. mo < ov a b \<longrightarrow> mo < ov b a"
    by (elim conjE)
  from clustered_equiv [OF cl]
  have trans:
    "\<forall>a \<in> ?S. \<forall>b \<in> ?S. \<forall>d \<in> ?S. mo < ov a b \<longrightarrow> mo < ov b d \<longrightarrow> mo < ov a d"
    by (elim conjE)
  have e: "set [] \<subseteq> ?S" "distinct ([] :: keypoint list)"
    "\<forall>a \<in> set ([] :: keypoint list). \<forall>b \<in> set []. a \<noteq> b \<longrightarrow> \<not> mo < ov a b"
    by simp_all
  have o: "set cs1 \<subseteq> ?S" by simp
  note F1 = cluster_fold [OF refl sym trans o e]
  note F2 = cluster_fold [OF refl sym trans sub e]
  from F1 have s1: "set ?L1 \<subseteq> ?S" by (rule conjunct1)
  from F1 have d1: "distinct ?L1" by (elim conjE)
  from F1 have c1: "\<forall>x \<in> ?S. ((\<exists>c \<in> set cs1. mo < ov x c) \<or> (\<exists>k \<in> set []. mo < ov x k)) \<longrightarrow>
      (\<exists>k \<in> set ?L1. mo < ov x k)"
    by (elim conjE)
  from F2 have s2: "set ?L2 \<subseteq> ?S" by (rule conjunct1)
  from F2 have d2: "distinct ?L2" by (elim conjE)
  from F2 have p2: "\<forall>a \<in> set ?L2. \<forall>b \<in> set ?L2. a \<noteq> b \<longrightarrow> \<not> mo < ov a b"
    by (elim conjE)
  have "\<forall>x \<in> set ?L2. \<exists>k. k \<in> set ?L1 \<and> mo < ov x k"
  proof
    fix x assume "x \<in> set ?L2"
    with s2 have xS: "x \<in> ?S" by auto
    with refl have "\<exists>c \<in> set cs1. mo < ov x c" by blast
    with c1 xS show "\<exists>k. k \<in> set ?L1 \<and> mo < ov x k" by blast
  qed
  from bchoice [OF this] obtain f where f: "\<forall>x \<in> set ?L2. f x \<in> set ?L1 \<and> mo < ov x (f x)"
    by blast
  have inj: "inj_on f (set ?L2)"
  proof (rule inj_onI)
    fix x y assume x: "x \<in> set ?L2" and y: "y \<in> set ?L2" and e: "f x = f y"
    from f x s1 have fxS: "f x \<in> ?S" and fx: "mo < ov x (f x)" by auto
    from f y e have fy: "mo < ov y (f x)" by auto
    from x y s2 have xS: "x \<in> ?S" and yS: "y \<in> ?S" by auto
    from sym yS fxS fy have "mo < ov (f x) y" by blast
    with trans xS fxS yS fx have "mo < ov x y" by blast
    with p2 x y show "x = y" by blast
  qed
  have img: "f ` set ?L2 \<subseteq> set ?L1" using f by auto
  have "card (set ?L2) \<le> card (set ?L1)"
    using inj img by (rule card_inj_on_le) simp
  with d1 d2 show ?thesis by (simp add: distinct_card)
qed

section \<open>Harris keypoints: the claims\<close>

text \<open>
  Claim C1 says that no two returned keypoints overlap by more than \<^verbatim>\<open>maxOverlap\<close>, and
  line 153 of the source calls \<^verbatim>\<open>maxOverlap\<close> the maximal permissible overlap between two
  features. The loop does not achieve that. On a response map of 2 rows and 11 columns
  with the values 130 at (row 0, column 0), 130 at (row 0, column 10) and 255 at
  (row 1, column 5), the third candidate overlaps both stored keypoints; it replaces the
  first, the scan stops, and the result holds two keypoints that overlap, of responses 255
  and 130.
\<close>

theorem harris_overlapping_pair_survives:
  "detKeypointsHarris map_cv []
     (sparse_map CV_32F 2 11 [((0, 0), 130), ((0, 10), 130), ((1, 5), 255)]) =
     [newKeyPoint_at 3 1 5 255, newKeyPoint_at 3 0 10 130] \<and>
   0 < overlap map_cv (newKeyPoint_at 3 1 5 255) (newKeyPoint_at 3 0 10 130) \<and>
   response (newKeyPoint_at 3 0 10 130) < response (newKeyPoint_at 3 1 5 255)"
  by code_simp

text \<open>
  Claim C2 says that a candidate is dropped, and the vector left as it is, when the first
  stored keypoint it overlaps has a response that is not lower. Here the candidate of
  response 200 overlaps the first stored keypoint, of response 255; the scan goes on and
  the candidate replaces the second stored keypoint, of response 130.
\<close>

theorem nms_first_overlap_counterexample:
  "0 < disc_overlap (newKeyPoint_at 3 4 5 200) (newKeyPoint_at 3 0 5 255) \<and>
   response (newKeyPoint_at 3 4 5 200) \<le> response (newKeyPoint_at 3 0 5 255) \<and>
   nms_insert disc_overlap 0 (newKeyPoint_at 3 4 5 200)
     [newKeyPoint_at 3 0 5 255, newKeyPoint_at 3 4 0 130] =
     [newKeyPoint_at 3 0 5 255, newKeyPoint_at 3 4 5 200] \<and>
   nms_insert disc_overlap 0 (newKeyPoint_at 3 4 5 200)
     [newKeyPoint_at 3 0 5 255, newKeyPoint_at 3 4 0 130] \<noteq>
     [newKeyPoint_at 3 0 5 255, newKeyPoint_at 3 4 0 130]"
  by code_simp

text \<open>
  Claim C2, as amended. The candidate replaces the first stored keypoint, in the order of
  the vector, that it overlaps by more than \<^verbatim>\<open>maxOverlap\<close> and whose response is strictly
  lower, and the scan stops there. When there is no such keypoint, the vector is left as
  it is if the candidate overlaps some stored keypoint, and the candidate is appended
  otherwise.
\<close>

theorem nms_insert_first_match: "nms_insert ov mo c ks = nms_first_match ov mo c ks"
  by (simp add: nms_insert_def nms_first_match_def nms_scan_first_match split: option.splits)

text \<open>
  Claim C2, an instance: the input of the counterexample.
\<close>

theorem nms_insert_first_match_witness:
  "nms_insert disc_overlap 0 (newKeyPoint_at 3 4 5 200)
     [newKeyPoint_at 3 0 5 255, newKeyPoint_at 3 4 0 130] =
   nms_first_match disc_overlap 0 (newKeyPoint_at 3 4 5 200)
     [newKeyPoint_at 3 0 5 255, newKeyPoint_at 3 4 0 130] \<and>
   nms_first_match disc_overlap 0 (newKeyPoint_at 3 4 5 200)
     [newKeyPoint_at 3 0 5 255, newKeyPoint_at 3 4 0 130] =
     [newKeyPoint_at 3 0 5 255, newKeyPoint_at 3 4 5 200]"
proof -
  have "nms_first_match disc_overlap 0 (newKeyPoint_at 3 4 5 200)
     [newKeyPoint_at 3 0 5 255, newKeyPoint_at 3 4 0 130] =
     [newKeyPoint_at 3 0 5 255, newKeyPoint_at 3 4 5 200]"
    by code_simp
  with nms_insert_first_match [of disc_overlap 0 "newKeyPoint_at 3 4 5 200"
      "[newKeyPoint_at 3 0 5 255, newKeyPoint_at 3 4 0 130]"]
  show ?thesis by simp
qed

text \<open>
  Claim C4 says that a higher threshold never gives more keypoints. On this response map
  the threshold 120 gives 2 keypoints and the threshold 150 gives 3: the weak candidate at
  (row 4, column 0) is replaced by the candidate at (4, 5), which then suppresses the
  candidates at (4, 10) and (8, 5); without the weak candidate, (4, 5) is dropped and
  both are kept.
\<close>

theorem harris_threshold_count_counterexample:
  "(120 :: int) < 150 \<and>
   length (harris_scan disc_overlap 0 120 3
     (sparse_map CV_32F 9 11
        [((0, 5), 255), ((4, 0), 130), ((4, 5), 200), ((4, 10), 190), ((8, 5), 190)]) []) = 2 \<and>
   length (harris_scan disc_overlap 0 150 3
     (sparse_map CV_32F 9 11
        [((0, 5), 255), ((4, 0), 130), ((4, 5), 200), ((4, 10), 190), ((8, 5), 190)]) []) = 3"
  by code_simp

text \<open>
  Claim C4, as amended. For thresholds \<open>T1 \<le> T2\<close> on the same response map, the
  candidates at \<open>T2\<close> are a subsequence of the candidates at \<open>T1\<close>, so there are no more
  of them. The scan with \<open>T2\<close> returns no more keypoints than the scan with \<open>T1\<close> in two
  cases: when the candidates at \<open>T1\<close> keep the weak apart, that is, no candidate overlaps
  a given keypoint or an earlier candidate if one of the two has a response of at most
  \<open>T2\<close>; and, from the empty vector, when the candidates at \<open>T1\<close> are clustered.
\<close>

theorem harris_threshold_count:
  assumes "T1 \<le> T2"
  shows "subseq (candidates T2 ap dst) (candidates T1 ap dst) \<and>
         length (candidates T2 ap dst) \<le> length (candidates T1 ap dst) \<and>
         (weak_apart ov mo T2 kps (candidates T1 ap dst) \<longrightarrow>
            length (harris_scan ov mo T2 ap dst kps) \<le> length (harris_scan ov mo T1 ap dst kps)) \<and>
         (clustered ov mo (candidates T1 ap dst) \<longrightarrow>
            length (harris_scan ov mo T2 ap dst []) \<le> length (harris_scan ov mo T1 ap dst []))"
proof -
  have sub: "subseq (candidates T2 ap dst) (candidates T1 ap dst)"
    using assms by (rule candidates_subseq)
  then have len: "length (candidates T2 ap dst) \<le> length (candidates T1 ap dst)"
    by (rule list_emb_length)
  have weak: "length (harris_scan ov mo T2 ap dst kps) \<le> length (harris_scan ov mo T1 ap dst kps)"
    if apart: "weak_apart ov mo T2 kps (candidates T1 ap dst)"
    using weak_apart_fold [OF apart, of kps kps] candidates_filter [OF assms, of ap dst]
    by (simp add: harris_scan_candidates)
  have clus: "length (harris_scan ov mo T2 ap dst []) \<le> length (harris_scan ov mo T1 ap dst [])"
    if cl: "clustered ov mo (candidates T1 ap dst)"
  proof -
    have "set (candidates T2 ap dst) \<subseteq> set (candidates T1 ap dst)"
      by (auto simp: candidates_filter [OF assms])
    from clustered_count [OF cl this] show ?thesis
      by (simp add: harris_scan_candidates)
  qed
  from sub len weak clus show ?thesis by blast
qed

text \<open>
  Claim C4, two instances with the thresholds 120 and 150. On \<open>strong_pair_map\<close> both
  conditions hold, the second strong candidate replaces the first, and the scans return
  2 and 1 keypoints. On \<open>cluster_map\<close> the candidates are clustered, with weak candidates
  inside a cluster, and both scans return 2 keypoints.
\<close>

theorem harris_threshold_count_witness:
  "(120 :: int) \<le> 150 \<and>
   weak_apart disc_overlap 0 150 [] (candidates 120 3 strong_pair_map) \<and>
   clustered disc_overlap 0 (candidates 120 3 strong_pair_map) \<and>
   length (harris_scan disc_overlap 0 150 3 strong_pair_map []) \<le>
     length (harris_scan disc_overlap 0 120 3 strong_pair_map []) \<and>
   length (harris_scan disc_overlap 0 150 3 strong_pair_map []) = 1 \<and>
   length (harris_scan disc_overlap 0 120 3 strong_pair_map []) = 2 \<and>
   length (candidates 120 3 strong_pair_map) = 3 \<and>
   clustered disc_overlap 0 (candidates 120 3 cluster_map) \<and>
   length (harris_scan disc_overlap 0 150 3 cluster_map []) \<le>
     length (harris_scan disc_overlap 0 120 3 cluster_map []) \<and>
   length (harris_scan disc_overlap 0 150 3 cluster_map []) = 2 \<and>
   length (harris_scan disc_overlap 0 120 3 cluster_map []) = 2 \<and>
   length (candidates 120 3 cluster_map) = 4"
proof -
  have le: "(120 :: int) \<le> 150" by simp
  have a: "weak_apart disc_overlap 0 150 [] (candidates 120 3 strong_pair_map)" by code_simp
  have c: "clustered disc_overlap 0 (candidates 120 3 strong_pair_map)" by code_simp
  have c': "clustered disc_overlap 0 (candidates 120 3 cluster_map)" by code_simp
  have v: "length (harris_scan disc_overlap 0 150 3 strong_pair_map []) = 1"
    "length (harris_scan disc_overlap 0 120 3 strong_pair_map []) = 2"
    "length (candidates 120 3 strong_pair_map) = 3"
    "length (harris_scan disc_overlap 0 150 3 cluster_map []) = 2"
    "length (harris_scan disc_overlap 0 120 3 cluster_map []) = 2"
    "length (candidates 120 3 cluster_map) = 4"
    by code_simp+
  from harris_threshold_count [OF le, where ap = 3 and ov = disc_overlap and mo = 0
      and kps = "[]" and dst = strong_pair_map]
    harris_threshold_count [OF le, where ap = 3 and ov = disc_overlap and mo = 0
      and kps = "[]" and dst = cluster_map] a c c' v le
  show ?thesis by simp
qed

text \<open>
  Claim C6 compares the normalised response with the threshold and stores it in the
  keypoint. The source compares and stores the response cut to an integer: a pixel of
  response 120.5 is above the threshold 120 and gives no keypoint, and a pixel of response
  200.7 gives a keypoint of response 200.
\<close>

theorem harris_fractional_response_counterexample:
  "120 < at_f (sparse_map CV_32F 1 1 [((0, 0), 241 / 2)]) 0 0 \<and>
   detKeypointsHarris map_cv [] (sparse_map CV_32F 1 1 [((0, 0), 241 / 2)]) = [] \<and>
   map response (detKeypointsHarris map_cv [] (sparse_map CV_32F 1 1 [((0, 0), 2007 / 10)])) = [200] \<and>
   at_f (sparse_map CV_32F 1 1 [((0, 0), 2007 / 10)]) 0 0 \<noteq> 200"
  by code_simp

text \<open>
  Claim C6, as amended. \<^verbatim>\<open>detKeypointsHarris\<close> visits the pixels row by row and inserts one
  candidate for every pixel whose normalised response, cut to an integer, is strictly above
  the threshold 120; the candidate lies at the pixel (x the column, y the row), has the
  size twice the aperture size, and has the response cut to an integer.
\<close>

theorem detKeypointsHarris_candidates:
  "detKeypointsHarris cv keypoints img =
     fold (nms_insert (overlap cv) 0) (candidates 120 3 (harris_response cv img)) keypoints \<and>
   set (candidates minResponse apertureSize dst_norm) =
     {newKeyPoint_at apertureSize i j (trunc_int (at_f dst_norm i j)) | i j.
        i < rows dst_norm \<and> j < cols dst_norm \<and> minResponse < trunc_int (at_f dst_norm i j)} \<and>
   pt_x (newKeyPoint_at apertureSize i j resp) = real j \<and>
   pt_y (newKeyPoint_at apertureSize i j resp) = real i \<and>
   kp_size (newKeyPoint_at apertureSize i j resp) = real_of_int (2 * apertureSize) \<and>
   response (newKeyPoint_at apertureSize i j resp) = real_of_int resp"
proof -
  have "set (candidates minResponse apertureSize dst_norm) =
     {newKeyPoint_at apertureSize i j (trunc_int (at_f dst_norm i j)) | i j.
        i < rows dst_norm \<and> j < cols dst_norm \<and> minResponse < trunc_int (at_f dst_norm i j)}"
    by (fastforce simp: candidates_def)
  then show ?thesis
    by (simp add: detKeypointsHarris_fold newKeyPoint_at_def)
qed

text \<open>
  Claim C6, the scenario: a map of 5 rows and 5 columns with the single response 200 in
  the middle gives exactly one keypoint, at that pixel.
\<close>

theorem detKeypointsHarris_candidates_witness:
  "detKeypointsHarris map_cv [] (sparse_map CV_32F 5 5 [((2, 2), 200)]) =
     [newKeyPoint_at 3 2 2 200] \<and>
   pt_x (newKeyPoint_at 3 2 2 200) = 2 \<and> pt_y (newKeyPoint_at 3 2 2 200) = 2 \<and>
   kp_size (newKeyPoint_at 3 2 2 200) = 6 \<and> response (newKeyPoint_at 3 2 2 200) = 200"
proof -
  have c: "candidates 120 3 (harris_response map_cv (sparse_map CV_32F 5 5 [((2, 2), 200)])) =
      [newKeyPoint_at 3 2 2 200]"
    by code_simp
  from detKeypointsHarris_candidates [of map_cv "[]" "sparse_map CV_32F 5 5 [((2, 2), 200)]"
      120 3 "sparse_map CV_32F 5 5 [((2, 2), 200)]" 2 2 200] c
  show ?thesis by (simp add: nms_insert_def)
qed

text \<open>
  Claim C10. \<^verbatim>\<open>detKeypointsHarris\<close> does not clear the vector it is given and works on
  it. The result is at least as long. Every position of the given vector holds afterwards
  what it held before, unless a candidate of the image overlaps the keypoint that was
  there and has a strictly greater response. What stands behind the given positions are
  candidates of the image. And the result is what first-match suppression makes of the
  given vector when the candidates are inserted in scan order: each candidate is compared
  with the keypoints then in the vector, the given ones included; it takes the place of the
  first one it beats, is dropped if it beats none and overlaps one, and is appended if it
  overlaps none.
\<close>

theorem detKeypointsHarris_keeps_keypoints:
  "length keypoints \<le> length (detKeypointsHarris cv keypoints img) \<and>
   (\<forall>n < length keypoints.
      detKeypointsHarris cv keypoints img ! n = keypoints ! n \<or>
      (\<exists>c \<in> set (candidates 120 3 (harris_response cv img)).
         beats (overlap cv) 0 c (keypoints ! n))) \<and>
   set (drop (length keypoints) (detKeypointsHarris cv keypoints img)) \<subseteq>
     set (candidates 120 3 (harris_response cv img)) \<and>
   detKeypointsHarris cv keypoints img =
     fold (nms_first_match (overlap cv) 0) (candidates 120 3 (harris_response cv img)) keypoints"
proof -
  let ?cs = "candidates 120 3 (harris_response cv img)"
  have f: "detKeypointsHarris cv keypoints img = fold (nms_insert (overlap cv) 0) ?cs keypoints"
    by (rule detKeypointsHarris_fold)
  have l: "length keypoints \<le> length (detKeypointsHarris cv keypoints img)"
    by (simp add: f fold_nms_insert_length)
  have n: "\<forall>n < length keypoints.
      detKeypointsHarris cv keypoints img ! n = keypoints ! n \<or>
      (\<exists>c \<in> set ?cs. beats (overlap cv) 0 c (keypoints ! n))"
    by (simp add: f fold_nms_insert_nth)
  have d: "set (drop (length keypoints) (detKeypointsHarris cv keypoints img)) \<subseteq> set ?cs"
    using fold_nms_insert_drop [of "length keypoints" "overlap cv" 0 ?cs keypoints]
    by (simp add: f)
  have "nms_insert (overlap cv) 0 = nms_first_match (overlap cv) 0"
    by (intro ext)
       (simp add: nms_insert_def nms_first_match_def nms_scan_first_match split: option.splits)
  with f have s: "detKeypointsHarris cv keypoints img =
      fold (nms_first_match (overlap cv) 0) ?cs keypoints"
    by simp
  from l n d s show ?thesis by (intro conjI)
qed

text \<open>
  Claim C10, three instances with one given keypoint in the middle of a map: a candidate
  10 pixels away is appended behind it; a candidate next to it is suppressed when the given
  keypoint has the response 255; and it replaces the given keypoint when that has the
  response 130.
\<close>

theorem detKeypointsHarris_keeps_keypoints_witness:
  "detKeypointsHarris map_cv [newKeyPoint_at 3 2 2 255]
       (sparse_map CV_32F 5 13 [((2, 12), 200)]) =
     [newKeyPoint_at 3 2 2 255, newKeyPoint_at 3 2 12 200] \<and>
   length [newKeyPoint_at 3 2 2 255] \<le>
     length (detKeypointsHarris map_cv [newKeyPoint_at 3 2 2 255]
       (sparse_map CV_32F 5 13 [((2, 12), 200)])) \<and>
   set (drop (length [newKeyPoint_at 3 2 2 255])
       (detKeypointsHarris map_cv [newKeyPoint_at 3 2 2 255]
          (sparse_map CV_32F 5 13 [((2, 12), 200)]))) = {newKeyPoint_at 3 2 12 200} \<and>
   detKeypointsHarris map_cv [newKeyPoint_at 3 2 2 255]
       (sparse_map CV_32F 5 5 [((2, 3), 200)]) = [newKeyPoint_at 3 2 2 255] \<and>
   detKeypointsHarris map_cv [newKeyPoint_at 3 2 2 130]
       (sparse_map CV_32F 5 5 [((2, 3), 200)]) = [newKeyPoint_at 3 2 3 200] \<and>
   beats disc_overlap 0 (newKeyPoint_at 3 2 3 200) (newKeyPoint_at 3 2 2 130)"
proof -
  have p: "fold (nms_first_match (overlap map_cv) 0)
       (candidates 120 3 (harris_response map_cv (sparse_map CV_32F 5 13 [((2, 12), 200)])))
       [newKeyPoint_at 3 2 2 255] =
     [newKeyPoint_at 3 2 2 255, newKeyPoint_at 3 2 12 200]"
    by code_simp
  have e: "fold (nms_first_match (overlap map_cv) 0)
       (candidates 120 3 (harris_response map_cv (sparse_map CV_32F 5 5 [((2, 3), 200)])))
       [newKeyPoint_at 3 2 2 255] = [newKeyPoint_at 3 2 2 255]"
    by code_simp
  have r: "fold (nms_first_match (overlap map_cv) 0)
       (candidates 120 3 (harris_response map_cv (sparse_map CV_32F 5 5 [((2, 3), 200)])))
       [newKeyPoint_at 3 2 2 130] = [newKeyPoint_at 3 2 3 200]"
    by code_simp
  have b: "beats disc_overlap 0 (newKeyPoint_at 3 2 3 200) (newKeyPoint_at 3 2 2 130)"
    by code_simp
  from detKeypointsHarris_keeps_keypoints [of "[newKeyPoint_at 3 2 2 255]" map_cv
      "sparse_map CV_32F 5 13 [((2, 12), 200)]"]
    detKeypointsHarris_keeps_keypoints [of "[newKeyPoint_at 3 2 2 255]" map_cv
      "sparse_map CV_32F 5 5 [((2, 3), 200)]"]
    detKeypointsHarris_keeps_keypoints [of "[newKeyPoint_at 3 2 2 130]" map_cv
      "sparse_map CV_32F 5 5 [((2, 3), 200)]"] p e r b
  show ?thesis by simp
qed

section \<open>The ratio test and the matcher\<close>

text \<open>
  The loop of lines 44--48: what it returns on neighbour lists that all have two entries,
  when it fails, and that it only appends.
\<close>

lemma ratio_filter_all_pairs:
  "\<forall>l \<in> set kn. 2 \<le> length l \<Longrightarrow>
     ratio_filter kn ms =
       (ms @ map (\<lambda>l. l ! 0)
               (filter (\<lambda>l. distance (l ! 0) < min_desc_dist_ratio * distance (l ! 1)) kn),
        None)"
  by (induction kn arbitrary: ms) auto

lemma ratio_filter_failure:
  "snd (ratio_filter kn ms) = (if \<exists>l \<in> set kn. length l < 2 then Some OutOfRange else None)"
  by (induction kn arbitrary: ms) auto

lemma ratio_filter_appends:
  "ratio_filter kn ms = (ms', f) \<Longrightarrow> \<exists>new. ms' = ms @ new \<and> length new \<le> length kn"
proof (induction kn arbitrary: ms)
  case Nil
  then show ?case by simp
next
  case (Cons it rest)
  show ?case
  proof (cases "length it < 2")
    case True
    with Cons.prems show ?thesis by simp
  next
    case short: False
    show ?thesis
    proof (cases "distance (it ! 0) < min_desc_dist_ratio * distance (it ! 1)")
      case True
      with short Cons.prems have "ratio_filter rest (ms @ [it ! 0]) = (ms', f)" by simp
      from Cons.IH [OF this] obtain new where "ms' = (ms @ [it ! 0]) @ new" "length new \<le> length rest"
        by blast
      then have "ms' = ms @ (it ! 0 # new) \<and> length (it ! 0 # new) \<le> length (it # rest)" by simp
      then show ?thesis by blast
    next
      case False
      with short Cons.prems have "ratio_filter rest ms = (ms', f)" by simp
      from Cons.IH [OF this] show ?thesis by auto
    qed
  qed
qed

text \<open>
  The configuration of lines 11--29 leaves \<^verbatim>\<open>matches\<close> alone, and the search of lines
  31--49 leaves the two descriptor matrices alone.
\<close>

lemma configure_matcher_matches:
  "matches (fst (configure_matcher cv st dt mt)) = matches st"
  by (simp add: configure_matcher_def Let_def)

lemma configure_matcher_handle:
  "snd (configure_matcher cv st dt mt) =
     (if mt = ''MAT_BF''
      then Some (BFMatcher_create cv (if dt = ''DES_BINARY'' then NORM_HAMMING else NORM_L2) False)
      else if mt = ''MAT_FLANN'' then Some (FlannBasedMatcher_create cv) else None)"
  by (simp add: configure_matcher_def Let_def)

lemma perform_matching_descriptors:
  "descSource (fst (perform_matching st m sel)) = descSource st \<and>
   descRef (fst (perform_matching st m sel)) = descRef st"
  by (simp add: perform_matching_def split: option.splits prod.splits)

text \<open>
  The two halves of the contract of a matcher, and the exhaustive matcher of the examples,
  which keeps it.
\<close>

lemma matcher_contract_knn:
  "matcher_contract m \<Longrightarrow> knnMatch m src ref k = Some kn \<Longrightarrow>
     length kn = rows src \<and> (\<forall>l \<in> set kn. length l \<le> rows ref)"
  unfolding matcher_contract_def by blast

lemma matcher_contract_nn:
  "matcher_contract m \<Longrightarrow> match m src ref = Some ms \<Longrightarrow> 0 < rows ref \<Longrightarrow>
     length ms = rows src"
  unfolding matcher_contract_def by blast

lemma length_neighbours: "length (neighbours src ref q) = rows ref"
  by (simp add: neighbours_def)

lemma exhaustive_matcher_contract: "matcher_contract exhaustive_matcher"
proof -
  have "length (concat (map (\<lambda>q. take 1 (neighbours src ref q)) qs)) = length qs"
    if "0 < rows ref" for src ref and qs :: "nat list"
    using that by (induction qs) (simp_all add: length_neighbours min_def)
  then show ?thesis
    by (auto simp: matcher_contract_def exhaustive_matcher_def length_neighbours)
qed

lemma example_cv_contract: "cv_match_contract example_cv"
  by (simp add: cv_match_contract_def example_cv_def exhaustive_matcher_contract)

section \<open>Descriptor matching and dispatch: the claims\<close>

text \<open>
  Claim C3 speaks of every pair of descriptor sets. With one source descriptor and one
  reference descriptor the search for 2 neighbours returns a list of one entry; there is no
  second distance to compare with, the call ends in the read past the end of that list, and
  no match is decided.
\<close>

theorem knn_single_neighbour_counterexample:
  "knnMatch exhaustive_matcher one_source one_reference 2 = Some [[DMatch 0 0 0 2]] \<and>
   snd (matchDescriptors example_cv one_source one_reference []
          ''DES_HOG'' ''MAT_BF'' ''SEL_KNN'') = Some OutOfRange \<and>
   matches (fst (matchDescriptors example_cv one_source one_reference []
          ''DES_HOG'' ''MAT_BF'' ''SEL_KNN'')) = []"
  by code_simp

text \<open>
  Claim C3, as amended. With the selector \<^verbatim>\<open>SEL_KNN\<close> the matcher is asked for the 2
  nearest neighbours of every source descriptor. For every pair of descriptor sets on
  which that search returns and every list it returns has its two entries, the call
  returns and appends to \<^verbatim>\<open>matches\<close>, in the order of the lists, the first entry of exactly
  those lists whose first distance is strictly less than 0.8 times the second distance;
  the other lists give no match.
\<close>

theorem knn_ratio_test:
  assumes conf: "configure_matcher cv \<lparr>descSource = s, descRef = r, matches = ms0\<rparr> dt mt = (st, Some m)"
    and knn: "knnMatch m (descSource st) (descRef st) 2 = Some kn"
    and two: "\<forall>l \<in> set kn. 2 \<le> length l"
  shows "matchDescriptors cv s r ms0 dt mt ''SEL_KNN'' =
           (st\<lparr>matches :=
                 ms0 @ map (\<lambda>l. l ! 0)
                         (filter (\<lambda>l. distance (l ! 0) < 0.8 * distance (l ! 1)) kn)\<rparr>,
            None)"
proof -
  from configure_matcher_matches [of cv "\<lparr>descSource = s, descRef = r, matches = ms0\<rparr>" dt mt] conf
  have "matches st = ms0" by simp
  with conf knn ratio_filter_all_pairs [OF two, of ms0] show ?thesis
    by (simp add: matchDescriptors_def perform_matching_def min_desc_dist_ratio_def)
qed

text \<open>
  Claim C3, the scenario: the neighbours at the distances 10 and 20 give a match
  (10 < 16), the neighbours at the distances 15 and 17 give none.
\<close>

theorem knn_ratio_test_witness:
  "knnMatch exhaustive_matcher two_sources four_references 2 =
     Some [[DMatch 0 0 0 10, DMatch 0 1 0 20], [DMatch 1 2 0 15, DMatch 1 3 0 17]] \<and>
   matchDescriptors example_cv two_sources four_references [] ''DES_HOG'' ''MAT_BF'' ''SEL_KNN'' =
     (\<lparr>descSource = two_sources, descRef = four_references, matches = [DMatch 0 0 0 10]\<rparr>,
      None)"
proof -
  let ?st = "\<lparr>descSource = two_sources, descRef = four_references, matches = []\<rparr>"
  let ?kn = "[[DMatch 0 0 0 10, DMatch 0 1 0 20], [DMatch 1 2 0 15, DMatch 1 3 0 17]]"
  have k0: "knnMatch exhaustive_matcher two_sources four_references 2 = Some ?kn"
    by code_simp
  have conf: "configure_matcher example_cv ?st ''DES_HOG'' ''MAT_BF'' = (?st, Some exhaustive_matcher)"
    by (simp add: configure_matcher_def example_cv_def)
  have knn: "knnMatch exhaustive_matcher (descSource ?st) (descRef ?st) 2 = Some ?kn"
    using k0 by simp
  have two: "\<forall>l \<in> set ?kn. 2 \<le> length l"
    by simp
  from knn_ratio_test [OF conf knn two] k0 show ?thesis by (simp add: DMatch_def)
qed

text \<open>
  Claim C5 compares the numbers of matches of the two selectors on the same inputs. With
  two matches already in the vector, the call with \<^verbatim>\<open>SEL_KNN\<close> leaves 3 matches in it
  and the call with \<^verbatim>\<open>SEL_NN\<close> leaves 2: the first appends, the second overwrites.
\<close>

theorem knn_appends_counterexample:
  "snd (matchDescriptors example_cv two_sources four_references [DMatch 7 7 0 1, DMatch 8 8 0 1]
          ''DES_HOG'' ''MAT_BF'' ''SEL_KNN'') = None \<and>
   snd (matchDescriptors example_cv two_sources four_references [DMatch 7 7 0 1, DMatch 8 8 0 1]
          ''DES_HOG'' ''MAT_BF'' ''SEL_NN'') = None \<and>
   length (matches (fst (matchDescriptors example_cv two_sources four_references
          [DMatch 7 7 0 1, DMatch 8 8 0 1] ''DES_HOG'' ''MAT_BF'' ''SEL_KNN''))) = 3 \<and>
   length (matches (fst (matchDescriptors example_cv two_sources four_references
          [DMatch 7 7 0 1, DMatch 8 8 0 1] ''DES_HOG'' ''MAT_BF'' ''SEL_NN''))) = 2"
  by code_simp

text \<open>
  Claim C5, as amended. For a library that keeps the contract and a pair of descriptor
  sets on which the call returns with either selector: the vector that \<^verbatim>\<open>SEL_KNN\<close> leaves
  is the given vector followed by no more matches than \<^verbatim>\<open>SEL_NN\<close> returns; so, when the
  given vector is empty, \<^verbatim>\<open>SEL_KNN\<close> gives no more matches than \<^verbatim>\<open>SEL_NN\<close>.
\<close>

theorem knn_count_le_nn:
  assumes lib: "cv_match_contract cv"
    and knn: "matchDescriptors cv s r ms0 dt mt ''SEL_KNN'' = (sk, None)"
    and nn: "matchDescriptors cv s r ms0 dt mt ''SEL_NN'' = (sn, None)"
  shows "(\<exists>new. matches sk = ms0 @ new \<and> length new \<le> length (matches sn)) \<and>
         (ms0 = [] \<longrightarrow> length (matches sk) \<le> length (matches sn))"
proof -
  obtain st h where conf:
    "configure_matcher cv \<lparr>descSource = s, descRef = r, matches = ms0\<rparr> dt mt = (st, h)"
    by (cases "configure_matcher cv \<lparr>descSource = s, descRef = r, matches = ms0\<rparr> dt mt")
  from configure_matcher_matches [of cv "\<lparr>descSource = s, descRef = r, matches = ms0\<rparr>" dt mt] conf
  have ms0: "matches st = ms0" by simp
  from knn conf obtain m where h: "h = Some m"
    by (cases h) (simp_all add: matchDescriptors_def perform_matching_def)
  from configure_matcher_handle [of cv "\<lparr>descSource = s, descRef = r, matches = ms0\<rparr>" dt mt]
    conf h lib
  have contract: "matcher_contract m"
    by (auto simp: cv_match_contract_def split: if_splits)
  from knn conf h obtain kn where kn: "knnMatch m (descSource st) (descRef st) 2 = Some kn"
    by (cases "knnMatch m (descSource st) (descRef st) 2")
       (simp_all add: matchDescriptors_def perform_matching_def)
  from nn conf h obtain ms where ms: "match m (descSource st) (descRef st) = Some ms"
    by (cases "match m (descSource st) (descRef st)")
       (simp_all add: matchDescriptors_def perform_matching_def)
  from nn conf h ms have sn: "matches sn = ms"
    by (auto simp: matchDescriptors_def perform_matching_def)
  obtain msk f where rf: "ratio_filter kn ms0 = (msk, f)"
    by (cases "ratio_filter kn ms0")
  from knn conf h kn rf ms0 have sk: "matches sk = msk" and f: "f = None"
    by (auto simp: matchDescriptors_def perform_matching_def)
  from ratio_filter_appends [OF rf] obtain new
    where new: "msk = ms0 @ new" and len: "length new \<le> length kn" by blast
  from matcher_contract_knn [OF contract kn]
  have rows_kn: "length kn = rows (descSource st)"
    and inner: "\<forall>l \<in> set kn. length l \<le> rows (descRef st)"
    by simp_all
  have "length new \<le> length ms"
  proof (cases kn)
    case Nil
    with len show ?thesis by simp
  next
    case (Cons l rest)
    from ratio_filter_failure [of kn ms0] rf f have "\<not> (\<exists>l \<in> set kn. length l < 2)"
      by (auto split: if_splits)
    with Cons have "2 \<le> length l" by auto
    with inner Cons have "0 < rows (descRef st)" by auto
    with contract ms have "length ms = rows (descSource st)"
      by (simp add: matcher_contract_nn)
    with rows_kn len show ?thesis by simp
  qed
  with new sk sn show ?thesis by auto
qed

text \<open>
  Claim C5, an instance: one match with the ratio test, two without.
\<close>

theorem knn_count_le_nn_witness:
  "cv_match_contract example_cv \<and>
   snd (matchDescriptors example_cv two_sources four_references []
          ''DES_HOG'' ''MAT_BF'' ''SEL_KNN'') = None \<and>
   snd (matchDescriptors example_cv two_sources four_references []
          ''DES_HOG'' ''MAT_BF'' ''SEL_NN'') = None \<and>
   length (matches (fst (matchDescriptors example_cv two_sources four_references []
          ''DES_HOG'' ''MAT_BF'' ''SEL_KNN''))) = 1 \<and>
   length (matches (fst (matchDescriptors example_cv two_sources four_references []
          ''DES_HOG'' ''MAT_BF'' ''SEL_NN''))) = 2 \<and>
   length (matches (fst (matchDescriptors example_cv two_sources four_references []
          ''DES_HOG'' ''MAT_BF'' ''SEL_KNN''))) \<le>
   length (matches (fst (matchDescriptors example_cv two_sources four_references []
          ''DES_HOG'' ''MAT_BF'' ''SEL_NN'')))"
proof -
  let ?knn = "matchDescriptors example_cv two_sources four_references []
          ''DES_HOG'' ''MAT_BF'' ''SEL_KNN''"
  let ?nn = "matchDescriptors example_cv two_sources four_references []
          ''DES_HOG'' ''MAT_BF'' ''SEL_NN''"
  have k: "snd ?knn = None" by code_simp
  have n: "snd ?nn = None" by code_simp
  have lk: "length (matches (fst ?knn)) = 1" by code_simp
  have ln: "length (matches (fst ?nn)) = 2" by code_simp
  from k have k': "?knn = (fst ?knn, None)" by (simp add: prod_eq_iff)
  from n have n': "?nn = (fst ?nn, None)" by (simp add: prod_eq_iff)
  from knn_count_le_nn [OF example_cv_contract k' n'] example_cv_contract k n lk ln
  show ?thesis by simp
qed

text \<open>
  Claim C7 expects a call with an unsupported type name to fail inside the library or to
  give an empty result. Every name other than \<^verbatim>\<open>BRISK\<close>, \<^verbatim>\<open>ORB\<close> and \<^verbatim>\<open>AKAZE\<close> (and
  \<^verbatim>\<open>FAST\<close> for the detector) leaves the handle empty, and the call through the empty handle
  is what ends both functions: no library routine is reached, and the keypoints and the
  descriptors are as they were.
\<close>

theorem unset_handle_is_dereferenced:
  "(descriptorType \<notin> {''BRISK'', ''ORB'', ''AKAZE''} \<longrightarrow>
      descKeypoints cv keypoints img descriptors descriptorType =
        ((keypoints, descriptors), Some NullHandle)) \<and>
   (detectorType \<notin> {''FAST'', ''BRISK'', ''ORB'', ''AKAZE''} \<longrightarrow>
      detKeypointsModern cv keypoints img detectorType = (keypoints, Some NullHandle))"
  by (simp add: descKeypoints_def select_extractor_def detKeypointsModern_def select_detector_def
      eq_commute [of detectorType])

text \<open>
  Claim C7, an instance: the names \<^verbatim>\<open>SURF\<close> and \<^verbatim>\<open>HARRIS\<close>.
\<close>

theorem unset_handle_is_dereferenced_witness:
  "''SURF'' \<notin> {''BRISK'', ''ORB'', ''AKAZE''} \<and>
   descKeypoints idle_cv [] one_source one_reference ''SURF'' =
     (([], one_reference), Some NullHandle) \<and>
   ''HARRIS'' \<notin> {''FAST'', ''BRISK'', ''ORB'', ''AKAZE''} \<and>
   detKeypointsModern idle_cv [] one_source ''HARRIS'' = ([], Some NullHandle)"
  using unset_handle_is_dereferenced [of "''SURF''" idle_cv "[]" one_source one_reference
      "''HARRIS''"]
  by simp

text \<open>
  Claim C8 says that the call leaves the two descriptor matrices as they were. With
  \<^verbatim>\<open>MAT_FLANN\<close> and binary descriptors the call returns and both matrices of the caller
  have become 32-bit floating point matrices.
\<close>

theorem flann_converts_descriptors_counterexample:
  "snd (matchDescriptors example_cv binary_source binary_references []
          ''DES_BINARY'' ''MAT_FLANN'' ''SEL_NN'') = None \<and>
   mtype binary_source = CV_8U \<and>
   mtype (descSource (fst (matchDescriptors example_cv binary_source binary_references []
          ''DES_BINARY'' ''MAT_FLANN'' ''SEL_NN''))) = CV_32F \<and>
   descSource (fst (matchDescriptors example_cv binary_source binary_references []
          ''DES_BINARY'' ''MAT_FLANN'' ''SEL_NN'')) \<noteq> binary_source \<and>
   descRef (fst (matchDescriptors example_cv binary_source binary_references []
          ''DES_BINARY'' ''MAT_FLANN'' ''SEL_NN'')) \<noteq> binary_references"
proof -
  let ?r = "matchDescriptors example_cv binary_source binary_references []
          ''DES_BINARY'' ''MAT_FLANN'' ''SEL_NN''"
  have a: "snd ?r = None" by code_simp
  have b: "mtype binary_source = CV_8U" by code_simp
  have c: "mtype (descSource (fst ?r)) = CV_32F" by code_simp
  have d: "mtype binary_references = CV_8U" by code_simp
  have e: "mtype (descRef (fst ?r)) = CV_32F" by code_simp
  from b c have "descSource (fst ?r) \<noteq> binary_source" by auto
  moreover from d e have "descRef (fst ?r) \<noteq> binary_references" by auto
  ultimately show ?thesis using a b c by simp
qed

text \<open>
  Claim C8, as amended. The call leaves both descriptor matrices as they were, except
  with the matcher type \<^verbatim>\<open>MAT_FLANN\<close> when one of them is not a 32-bit floating point
  matrix: then both are replaced by their conversions to 32-bit floating point.
\<close>

theorem matchDescriptors_descriptors:
  "descSource (fst (matchDescriptors cv s r ms dt mt sel)) =
     (if mt = ''MAT_FLANN'' \<and> (mtype s \<noteq> CV_32F \<or> mtype r \<noteq> CV_32F)
      then convertTo cv s CV_32F else s) \<and>
   descRef (fst (matchDescriptors cv s r ms dt mt sel)) =
     (if mt = ''MAT_FLANN'' \<and> (mtype s \<noteq> CV_32F \<or> mtype r \<noteq> CV_32F)
      then convertTo cv r CV_32F else r)"
  by (simp add: matchDescriptors_def perform_matching_descriptors configure_matcher_def Let_def
      split: prod.splits)

text \<open>
  Claim C8, two instances: binary descriptors with \<^verbatim>\<open>MAT_BF\<close> and with \<^verbatim>\<open>MAT_FLANN\<close>.
\<close>

theorem matchDescriptors_descriptors_witness:
  "descSource (fst (matchDescriptors example_cv binary_source binary_references []
          ''DES_BINARY'' ''MAT_BF'' ''SEL_NN'')) = binary_source \<and>
   descRef (fst (matchDescriptors example_cv binary_source binary_references []
          ''DES_BINARY'' ''MAT_BF'' ''SEL_NN'')) = binary_references \<and>
   descSource (fst (matchDescriptors example_cv binary_source binary_references []
          ''DES_BINARY'' ''MAT_FLANN'' ''SEL_NN'')) =
     convertTo example_cv binary_source CV_32F"
  using matchDescriptors_descriptors [of example_cv binary_source binary_references "[]"
      "''DES_BINARY''" "''MAT_BF''" "''SEL_NN''"]
    matchDescriptors_descriptors [of example_cv binary_source binary_references "[]"
      "''DES_BINARY''" "''MAT_FLANN''" "''SEL_NN''"]
  by (simp add: binary_source_def binary_references_def sparse_map_def)

text \<open>
  Claim C9. For a library that keeps the contract, a matcher type that selects a matcher,
  a source matrix with at least one descriptor and a reference matrix with fewer than two:
  when the neighbour search returns, the ratio test reads past the end of a neighbour
  list.
\<close>

theorem knn_second_neighbour_out_of_range:
  assumes lib: "cv_match_contract cv"
    and mt: "mt = ''MAT_BF'' \<or> mt = ''MAT_FLANN''"
    and src: "0 < rows s"
    and ref: "rows r < 2"
    and ret: "snd (matchDescriptors cv s r ms0 dt mt ''SEL_KNN'') \<noteq> Some LibraryException"
  shows "snd (matchDescriptors cv s r ms0 dt mt ''SEL_KNN'') = Some OutOfRange"
proof -
  obtain st h where conf:
    "configure_matcher cv \<lparr>descSource = s, descRef = r, matches = ms0\<rparr> dt mt = (st, h)"
    by (cases "configure_matcher cv \<lparr>descSource = s, descRef = r, matches = ms0\<rparr> dt mt")
  from configure_matcher_handle [of cv "\<lparr>descSource = s, descRef = r, matches = ms0\<rparr>" dt mt]
    conf mt lib
  obtain m where h: "h = Some m" and contract: "matcher_contract m"
    by (auto simp: cv_match_contract_def split: if_splits)
  from conf lib have rows_st: "rows (descSource st) = rows s" "rows (descRef st) = rows r"
    by (auto simp: configure_matcher_def Let_def cv_match_contract_def split: if_splits)
  from ret conf h obtain kn where kn: "knnMatch m (descSource st) (descRef st) 2 = Some kn"
    by (cases "knnMatch m (descSource st) (descRef st) 2")
       (simp_all add: matchDescriptors_def perform_matching_def)
  from matcher_contract_knn [OF contract kn] rows_st
  have "length kn = rows s" and "\<forall>l \<in> set kn. length l \<le> rows r"
    by simp_all
  with src ref have "\<exists>l \<in> set kn. length l < 2"
    by (cases kn) auto
  with ratio_filter_failure [of kn "matches st"] conf h kn show ?thesis
    by (auto simp: matchDescriptors_def perform_matching_def split: prod.splits)
qed

text \<open>
  Claim C9, an instance: one source descriptor and one reference descriptor.
\<close>

theorem knn_second_neighbour_out_of_range_witness:
  "cv_match_contract example_cv \<and> 0 < rows one_source \<and> rows one_reference < 2 \<and>
   snd (matchDescriptors example_cv one_source one_reference []
          ''DES_BINARY'' ''MAT_BF'' ''SEL_KNN'') = Some OutOfRange"
proof -
  have mt: "''MAT_BF'' = ''MAT_BF'' \<or> ''MAT_BF'' = ''MAT_FLANN''" by simp
  have src: "0 < rows one_source" by (simp add: one_source_def sparse_map_def)
  have ref: "rows one_reference < 2" by (simp add: one_reference_def sparse_map_def)
  have ret: "snd (matchDescriptors example_cv one_source one_reference []
          ''DES_BINARY'' ''MAT_BF'' ''SEL_KNN'') \<noteq> Some LibraryException"
    by code_simp
  from knn_second_neighbour_out_of_range [OF example_cv_contract mt src ref ret]
    example_cv_contract src ref
  show ?thesis by simp
qed

end
